theory Spec2Isabelle
  imports Complex_Main "HOL-Library.Word"
begin

unbundle bit_operations_syntax

section \<open>The xorshift32 engine\<close>

text \<open>
  \<^verbatim>\<open>class xorshift32\<close> holds one \<^verbatim>\<open>uint32_t seed_\<close>, the field \<open>seed_member\<close> here. A member function that
  mutates the object takes the generator and returns the updated one.
\<close>

type_synonym u32 = "32 word"

record xorshift32 =
  seed_member :: u32

text \<open>\<^verbatim>\<open>xorshift32(): seed_(12)\<close> and \<^verbatim>\<open>explicit xorshift32(ResultType seed_)\<close>.\<close>

definition xorshift32_default :: xorshift32 where
  "xorshift32_default = \<lparr>seed_member = 12\<rparr>"

definition xorshift32_from :: "u32 \<Rightarrow> xorshift32" where
  "xorshift32_from s = \<lparr>seed_member = s\<rparr>"

text \<open>
  The body of \<^verbatim>\<open>operator()\<close> on the local \<^verbatim>\<open>x\<close>: \<^verbatim>\<open>x ^= x << 13; x ^= x >> 17;
  x ^= x << 5\<close>. On \<^verbatim>\<open>uint32_t\<close> the left shift drops the bits pushed beyond bit 31 and
  the right shift is logical.
\<close>

definition xorshift_step :: "u32 \<Rightarrow> u32" where
  "xorshift_step x0 =
     (let x1 = x0 XOR push_bit 13 x0;
          x2 = x1 XOR drop_bit 17 x1;
          x3 = x2 XOR push_bit 5 x2
      in x3)"

text \<open>\<^verbatim>\<open>operator()\<close>: \<^verbatim>\<open>return seed_ = x\<close> stores the new state and returns it.\<close>

definition operator_call :: "xorshift32 \<Rightarrow> u32 \<times> xorshift32" where
  "operator_call g = (let x = xorshift_step (seed_member g) in (x, g\<lparr>seed_member := x\<rparr>))"

text \<open>
  \<^verbatim>\<open>discard(long long z)\<close>: \<^verbatim>\<open>for (long long i = 0; i < z; ++i) (*this)();\<close>. The counter
  stays below \<^verbatim>\<open>z\<close>, so \<^verbatim>\<open>++i\<close> never overflows and \<^verbatim>\<open>int\<close> models it.
\<close>

function discard_loop :: "int \<Rightarrow> int \<Rightarrow> xorshift32 \<Rightarrow> xorshift32" where
  "discard_loop i z g =
     (if i < z then discard_loop (i + 1) z (snd (operator_call g)) else g)"
  by pat_completeness auto
termination
  by (relation "measure (\<lambda>(i, z, g). nat (z - i))") auto

declare discard_loop.simps [simp del]

definition discard :: "int \<Rightarrow> xorshift32 \<Rightarrow> xorshift32" where
  "discard z g = discard_loop 0 z g"

text \<open>\<^verbatim>\<open>seed()\<close> and \<^verbatim>\<open>seed(seed_inp)\<close> assign a newly constructed generator.\<close>

definition seed0 :: "xorshift32 \<Rightarrow> xorshift32" where
  "seed0 g = xorshift32_default"

definition seed1 :: "u32 \<Rightarrow> xorshift32 \<Rightarrow> xorshift32" where
  "seed1 seed_inp g = xorshift32_from seed_inp"

text \<open>\<^verbatim>\<open>operator==\<close> and \<^verbatim>\<open>operator!=\<close> compare the raw state.\<close>

definition operator_eq :: "xorshift32 \<Rightarrow> xorshift32 \<Rightarrow> bool" where
  "operator_eq lhs rhs = (seed_member lhs = seed_member rhs)"

definition operator_neq :: "xorshift32 \<Rightarrow> xorshift32 \<Rightarrow> bool" where
  "operator_neq lhs rhs = (seed_member lhs \<noteq> seed_member rhs)"

text \<open>
  A client loop of \<open>k\<close> successive generation calls, collecting the outputs in order
  and returning the generator as the calls leave it.
\<close>

fun generate :: "nat \<Rightarrow> xorshift32 \<Rightarrow> u32 list \<times> xorshift32" where
  "generate 0 g = ([], g)"
| "generate (Suc k) g =
     (let (x, g1) = operator_call g; (xs, g2) = generate k g1 in (x # xs, g2))"

text \<open>
  The transition as the specification words it, on the unsigned value of the state:
  a left shift by \<open>k\<close> is a multiplication by \<open>2 ^ k\<close> reduced modulo \<open>2 ^ 32\<close>
  (32-bit wrap-around), a right shift by \<open>k\<close> is a division by \<open>2 ^ k\<close>.
\<close>

definition shl32 :: "nat \<Rightarrow> nat \<Rightarrow> nat" where
  "shl32 x k = (x * 2 ^ k) mod 2 ^ 32"

definition shr32 :: "nat \<Rightarrow> nat \<Rightarrow> nat" where
  "shr32 x k = x div 2 ^ k"

definition xorshift32_spec :: "nat \<Rightarrow> nat" where
  "xorshift32_spec x0 =
     (let x1 = x0 XOR shl32 x0 13;
          x2 = x1 XOR shr32 x1 17;
          x3 = x2 XOR shl32 x2 5
      in x3)"

text \<open>
  The inverse of the transition, step by step in reverse order: \<open>x XOR (x << k)\<close> is
  undone by XOR-ing the shifts by all multiples of \<open>k\<close> below 32, and likewise for
  the right shift.
\<close>

definition xorshift_unstep :: "u32 \<Rightarrow> u32" where
  "xorshift_unstep y =
     (let x2 = y XOR push_bit 5 y XOR push_bit 10 y XOR push_bit 15 y
                 XOR push_bit 20 y XOR push_bit 25 y XOR push_bit 30 y;
          x1 = x2 XOR drop_bit 17 x2;
          x0 = x1 XOR push_bit 13 x1 XOR push_bit 26 x1
      in x0)"

section \<open>Decimal text of unsigned numbers\<close>

text \<open>
  What \<^verbatim>\<open>os << n\<close> writes for an unsigned \<open>n\<close> under the \<^verbatim>\<open>dec\<close> flag with no
  field width: the decimal digits, most significant first, no sign and no padding.
\<close>

definition digit_char :: "nat \<Rightarrow> char" where
  "digit_char d = ''0123456789'' ! d"

function show_dec :: "nat \<Rightarrow> string" where
  "show_dec n =
     (if n < 10 then [digit_char n] else show_dec (n div 10) @ [digit_char (n mod 10)])"
  by pat_completeness auto
termination
  by (relation "measure (\<lambda>n. n)") auto

declare show_dec.simps [simp del]

text \<open>A signed \<^verbatim>\<open>long long\<close> is written with a minus sign when negative.\<close>

definition show_ll :: "int \<Rightarrow> string" where
  "show_ll i = (if i < 0 then CHR ''-'' # show_dec (nat (- i)) else show_dec (nat i))"

section \<open>The formatter\<close>

text \<open>
  \<^verbatim>\<open>std::cout\<close> is the text written so far; every routine takes it and returns it
  extended. The template parameters \<^verbatim>\<open>sep\<close> and \<^verbatim>\<open>end\<close> are ordinary arguments.
\<close>

type_synonym ostream = string

text \<open>
  A stream-writable argument: one of the \<^verbatim>\<open>char\<close> literals the container routine
  passes (\<^verbatim>\<open>'{'\<close>, \<^verbatim>\<open>','\<close>, \<^verbatim>\<open>'}'\<close>) or a value of the element type, written by
  that type's \<^verbatim>\<open>operator<<\<close>, the parameter \<open>sh\<close>. These are the arguments for which
  \<^verbatim>\<open>StdOutStreamable\<close> holds, the first branch of the \<^verbatim>\<open>if constexpr\<close>.
\<close>

datatype 'a scalar = Chr char | Val 'a

fun write_scalar :: "('a \<Rightarrow> string) \<Rightarrow> 'a scalar \<Rightarrow> string" where
  "write_scalar sh (Chr c) = [c]"
| "write_scalar sh (Val v) = sh v"

text \<open>
  \<^verbatim>\<open>print()\<close> is \<^verbatim>\<open>std::cout << end\<close>; \<^verbatim>\<open>print(first, rest...)\<close> is
  \<^verbatim>\<open>std::cout << first << sep; print<sep, end>(rest...)\<close>.
\<close>

fun print :: "char \<Rightarrow> char \<Rightarrow> ('a \<Rightarrow> string) \<Rightarrow> 'a scalar list \<Rightarrow> ostream \<Rightarrow> ostream" where
  "print sep end sh [] out = out @ [end]"
| "print sep end sh (first # rest) out =
     print sep end sh rest (out @ write_scalar sh first @ [sep])"

text \<open>
  A container is the list of its elements and an iterator is a position, \<^verbatim>\<open>begin\<close> at 0
  and \<^verbatim>\<open>end\<close> at the length. Dereferencing is defined only at the positions of
  elements; anywhere else the C++ is undefined, here \<open>None\<close>.
\<close>

definition deref :: "'a list \<Rightarrow> int \<Rightarrow> 'a option" where
  "deref output it =
     (if 0 \<le> it \<and> it < int (length output) then Some (output ! nat it) else None)"

text \<open>
  The range-for of the container overload, from the position \<open>it\<close> on:
  \<^verbatim>\<open>for (; it != end; ++it) { elem = *it; if (elem != last_elem) print<sep, ' '>(elem, ',');
  else print<sep, end>(elem, '}'); }\<close>. The element type's \<^verbatim>\<open>!=\<close> is taken to be
  the negation of equality of values.
\<close>

function print_elems ::
  "char \<Rightarrow> char \<Rightarrow> ('a \<Rightarrow> string) \<Rightarrow> 'a list \<Rightarrow> 'a \<Rightarrow> int \<Rightarrow> ostream \<Rightarrow> ostream option" where
  "print_elems sep end sh output last_elem it out =
     (if it \<noteq> int (length output) then
        (case deref output it of
           None \<Rightarrow> None
         | Some elem \<Rightarrow>
             print_elems sep end sh output last_elem (it + 1)
               (if elem \<noteq> last_elem
                then print sep (CHR '' '') sh [Val elem, Chr (CHR '','')] out
                else print sep end sh [Val elem, Chr (CHR ''}'')] out))
      else Some out)"
  by pat_completeness auto
termination
  by (relation "measure (\<lambda>(sep, end, sh, output, last_elem, it, out). nat (int (length output) - it))")
     (auto simp: deref_def split: if_splits)

declare print_elems.simps [simp del]

text \<open>
  \<^verbatim>\<open>print(Container auto const & output)\<close>: the opening brace, then
  \<^verbatim>\<open>last_elem = *(output.end() - 1)\<close>, then the loop from \<^verbatim>\<open>begin\<close>.
\<close>

definition print_container ::
  "char \<Rightarrow> char \<Rightarrow> ('a \<Rightarrow> string) \<Rightarrow> 'a list \<Rightarrow> ostream \<Rightarrow> ostream option" where
  "print_container sep end sh output out =
     (let out1 = print sep (CHR '' '') sh [Chr (CHR ''{'')] out
      in case deref output (int (length output) - 1) of
           None \<Rightarrow> None
         | Some last_elem \<Rightarrow> print_elems sep end sh output last_elem 0 out1)"



text \<open>What the loop writes for one element.\<close>

definition elem_text :: "char \<Rightarrow> char \<Rightarrow> ('a \<Rightarrow> string) \<Rightarrow> 'a \<Rightarrow> 'a \<Rightarrow> string" where
  "elem_text sep end sh last_elem elem =
     (if elem \<noteq> last_elem
      then sh elem @ [sep, CHR '','', sep, CHR '' '']
      else sh elem @ [sep, CHR ''}'', sep, end])"

section \<open>Text form of the engine\<close>

text \<open>
  \<^verbatim>\<open>operator<<\<close> sets the flags to \<^verbatim>\<open>dec | skipws\<close> and writes \<^verbatim>\<open>rng.seed_\<close>: the
  decimal digits of the state.
\<close>

definition operator_out :: "ostream \<Rightarrow> xorshift32 \<Rightarrow> ostream" where
  "operator_out os rng = os @ show_dec (unat (seed_member rng))"

text \<open>
  An input stream is the text still to be read and its fail bit. \<^verbatim>\<open>is >> rng.seed_\<close>
  under \<^verbatim>\<open>dec | skipws\<close> does nothing on a stream that has already failed; otherwise
  it skips white space. At the end of the text it fails and leaves the state alone.
  Otherwise it reads the longest run of decimal digits: with no digit the extraction
  fails and stores 0; a value above \<^verbatim>\<open>UINT32_MAX\<close> fails and stores the maximum. A
  token that starts with a sign is left out of the model (\<open>None\<close>): what the library
  stores for it depends on the implementation. The stream is in the classic locale and
  has no field width set.
\<close>

record istream =
  buf :: string
  failbit :: bool

definition is_space :: "char \<Rightarrow> bool" where
  "is_space c = (c \<in> set [CHR '' '', CHR 0x09, CHR 0x0A, CHR 0x0B, CHR 0x0C, CHR 0x0D])"

definition is_digit :: "char \<Rightarrow> bool" where
  "is_digit c = (48 \<le> (of_char c :: nat) \<and> (of_char c :: nat) \<le> 57)"

definition digit_val :: "char \<Rightarrow> nat" where
  "digit_val c = of_char c - 48"

fun read_digits :: "nat \<Rightarrow> string \<Rightarrow> nat \<times> string" where
  "read_digits acc [] = (acc, [])"
| "read_digits acc (c # cs) =
     (if is_digit c then read_digits (acc * 10 + digit_val c) cs else (acc, c # cs))"

definition operator_in :: "istream \<Rightarrow> xorshift32 \<Rightarrow> (istream \<times> xorshift32) option" where
  "operator_in is rng =
     (if failbit is then Some (is, rng)
      else
        (case dropWhile is_space (buf is) of
           [] \<Rightarrow> Some (is\<lparr>buf := [], failbit := True\<rparr>, rng)
         | c # cs \<Rightarrow>
             if c = CHR ''+'' \<or> c = CHR ''-'' then None
             else if is_digit c then
               (let (n, rest) = read_digits 0 (c # cs)
                in if n \<le> 4294967295
                   then Some (is\<lparr>buf := rest\<rparr>, rng\<lparr>seed_member := of_nat n\<rparr>)
                   else Some (is\<lparr>buf := rest, failbit := True\<rparr>,
                              rng\<lparr>seed_member := 4294967295\<rparr>))
             else Some (is\<lparr>buf := c # cs, failbit := True\<rparr>, rng\<lparr>seed_member := 0\<rparr>)))"

section \<open>The timer\<close>

record HumanReadableTime =
  unit :: string
  unit_fine :: string
  diff :: int
  diff_fine :: int
  diff_ns :: int

text \<open>C++ integer division truncates towards zero.\<close>

definition cdiv :: "int \<Rightarrow> int \<Rightarrow> int" where
  "cdiv a b = sgn a * sgn b * (\<bar>a\<bar> div \<bar>b\<bar>)"

text \<open>The micro sign of the source file, two bytes in UTF-8.\<close>

definition micro_sign :: string where
  "micro_sign = [CHR 0xC2, CHR 0xB5]"

text \<open>
  \<^verbatim>\<open>human_readable_time(long long diff)\<close>. The tests compare the quotient of
  \<^verbatim>\<open>static_cast<double>(diff)\<close> by a power-of-ten constant with 1. They are taken
  exactly, over the reals: every threshold is an integer below \<open>2 ^ 53\<close>, the
  conversion to \<^verbatim>\<open>double\<close> is exact below \<open>2 ^ 53\<close> and monotone above, and the
  rounded quotient of two doubles is below 1 exactly when the exact one is, for
  integers of this size. The divisions divide by positive constants and cannot overflow.
\<close>

definition human_readable_time :: "int \<Rightarrow> HumanReadableTime" where
  "human_readable_time d =
     (let diff_d = real_of_int d in
      if diff_d / 1000 < 1 then
        \<lparr>unit = '' ns'', unit_fine = [], diff = d, diff_fine = d, diff_ns = d\<rparr>
      else if diff_d / 1000000 < 1 then
        \<lparr>unit = '' '' @ micro_sign @ ''s'', unit_fine = [],
         diff = cdiv d 1000, diff_fine = d, diff_ns = d\<rparr>
      else if diff_d / 1000000000 < 1 then
        \<lparr>unit = '' ms'', unit_fine = '' '' @ micro_sign @ ''s'',
         diff = cdiv d 1000000, diff_fine = cdiv d 1000, diff_ns = d\<rparr>
      else if diff_d / (1000000000 * 60) < 1 then
        \<lparr>unit = '' s'', unit_fine = '' ms'',
         diff = cdiv d 1000000000, diff_fine = cdiv d 1000000, diff_ns = d\<rparr>
      else if diff_d / (1000000000 * 3600) < 1 then
        \<lparr>unit = '' m'', unit_fine = '' s'',
         diff = cdiv d 60000000000, diff_fine = cdiv d 1000000000, diff_ns = d\<rparr>
      else
        \<lparr>unit = '' h'', unit_fine = '' m'',
         diff = cdiv d 3600000000000, diff_fine = cdiv d 60000000, diff_ns = d\<rparr>)"

text \<open>
  \<^verbatim>\<open>class Timer\<close>: the start reading, the last reading and the \<^verbatim>\<open>stopped\<close> flag. Clock
  readings are nanosecond counts supplied by the caller of the model, as is the text
  \<^verbatim>\<open>std::ctime\<close> returns. \<^verbatim>\<open>std::cout\<close> is the list of the reports written so far, one
  entry for each execution of the output statement of \<^verbatim>\<open>stop()\<close>.
\<close>

record Timer =
  Start :: int
  Now :: int
  stopped :: bool

definition Timer_new :: "int \<Rightarrow> Timer" where
  "Timer_new now = \<lparr>Start = now, Now = 0, stopped = False\<rparr>"

definition restart :: "int \<Rightarrow> Timer \<Rightarrow> Timer" where
  "restart now t = t\<lparr>Start := now\<rparr>"

definition report_text :: "string \<Rightarrow> HumanReadableTime \<Rightarrow> string" where
  "report_text ctime hrt =
     ''finished computation at '' @ ctime @ ''elapsed time: '' @ show_ll (diff hrt) @ unit hrt
       @ '' ('' @ show_ll (diff_fine hrt) @ unit_fine hrt @ '')'' @ [CHR 0x0A]"

definition stop ::
  "int \<Rightarrow> string \<Rightarrow> Timer \<times> string list \<Rightarrow> HumanReadableTime \<times> Timer \<times> string list" where
  "stop now ctime s =
     (let (t, out) = s;
          t1 = t\<lparr>Now := now\<rparr>;
          diff_ns_count = Now t1 - Start t1;
          hrt = human_readable_time diff_ns_count;
          out1 = out @ [report_text ctime hrt];
          t2 = t1\<lparr>stopped := True\<rparr>
      in (hrt, t2, out1))"

text \<open>\<^verbatim>\<open>~Timer() { if (not stopped) { stop(); } }\<close>; the object is gone afterwards.\<close>

definition destroy :: "int \<Rightarrow> string \<Rightarrow> Timer \<times> string list \<Rightarrow> string list" where
  "destroy now ctime s =
     (if \<not> stopped (fst s) then snd (snd (stop now ctime s)) else snd s)"

text \<open>
  A lifetime: construction at the reading \<open>t0\<close>, the member calls the client makes in
  order, each with the readings it sees, and destruction at the end of the scope.
\<close>

datatype timer_call = Restart int | Stop int string

fun run_calls :: "timer_call list \<Rightarrow> Timer \<times> string list \<Rightarrow> Timer \<times> string list" where
  "run_calls [] s = s"
| "run_calls (Restart now # cs) s = run_calls cs (restart now (fst s), snd s)"
| "run_calls (Stop now ctime # cs) s = run_calls cs (snd (stop now ctime s))"

definition lifetime :: "int \<Rightarrow> timer_call list \<Rightarrow> int \<Rightarrow> string \<Rightarrow> string list" where
  "lifetime t0 cs t_end ctime_end = destroy t_end ctime_end (run_calls cs (Timer_new t0, []))"

fun is_Stop :: "timer_call \<Rightarrow> bool" where
  "is_Stop (Stop now ctime) = True"
| "is_Stop (Restart now) = False"

section \<open>Properties of the xorshift32 engine\<close>

lemma unat_push_bit_shl32: "unat (push_bit k (x::u32)) = shl32 (unat x) k"
proof -
  have "unat (push_bit k x) = take_bit 32 (push_bit k (unat x))"
    by (simp add: unsigned_push_bit_eq)
  also have "\<dots> = (unat x * 2 ^ k) mod 2 ^ 32"
    by (simp only: take_bit_eq_mod push_bit_eq_mult)
  finally show ?thesis by (simp only: shl32_def)
qed

lemma unat_drop_bit_shr32: "unat (drop_bit k (x::u32)) = shr32 (unat x) k"
proof -
  have "unat (drop_bit k x) = drop_bit k (unat x)"
    by (simp add: unsigned_drop_bit_eq take_bit_nat_eq_self
        unsigned_less [where 'b = 32, simplified])
  then show ?thesis by (simp only: shr32_def drop_bit_eq_div)
qed

lemma unat_xorshift_step: "unat (xorshift_step x) = xorshift32_spec (unat x)"
  by (simp only: xorshift_step_def xorshift32_spec_def Let_def unsigned_xor_eq
      unat_push_bit_shl32 unat_drop_bit_shr32)

lemma operator_call_eq: "operator_call g = (xorshift_step (seed_member g), g\<lparr>seed_member := xorshift_step (seed_member g)\<rparr>)"
  by (simp add: operator_call_def Let_def)

text \<open>
  C1. One generation call computes exactly the three XOR-shift steps with the shifts 13,
  17 and 5 on the 32-bit state: the unsigned value returned is the one the
  specification's arithmetic gives (shifts as multiplication modulo \<open>2 ^ 32\<close> and as
  division), the value returned is the word the three steps produce, and the generator
  left behind holds the returned value as its state and nothing else is changed.
\<close>

theorem C1_operator_call_three_steps:
  "unat (fst (operator_call g)) = xorshift32_spec (unat (seed_member g))
   \<and> fst (operator_call g) =
       ((seed_member g XOR push_bit 13 (seed_member g))
          XOR drop_bit 17 (seed_member g XOR push_bit 13 (seed_member g)))
        XOR push_bit 5 ((seed_member g XOR push_bit 13 (seed_member g))
          XOR drop_bit 17 (seed_member g XOR push_bit 13 (seed_member g)))
   \<and> snd (operator_call g) = g\<lparr>seed_member := fst (operator_call g)\<rparr>
   \<and> seed_member (snd (operator_call g)) = fst (operator_call g)"
proof -
  have f: "fst (operator_call g) = xorshift_step (seed_member g)"
    by (simp add: operator_call_eq)
  have s: "snd (operator_call g) = g\<lparr>seed_member := xorshift_step (seed_member g)\<rparr>"
    by (simp add: operator_call_eq)
  have c1: "unat (fst (operator_call g)) = xorshift32_spec (unat (seed_member g))"
    by (simp only: f unat_xorshift_step)
  have c2: "fst (operator_call g) =
       ((seed_member g XOR push_bit 13 (seed_member g))
          XOR drop_bit 17 (seed_member g XOR push_bit 13 (seed_member g)))
        XOR push_bit 5 ((seed_member g XOR push_bit 13 (seed_member g))
          XOR drop_bit 17 (seed_member g XOR push_bit 13 (seed_member g)))"
    by (simp only: f xorshift_step_def Let_def)
  have c3: "snd (operator_call g) = g\<lparr>seed_member := fst (operator_call g)\<rparr>"
    by (simp only: f s)
  have c4: "seed_member (snd (operator_call g)) = fst (operator_call g)"
    by (simp add: f s)
  from c1 c2 c3 c4 show ?thesis by (intro conjI)
qed

lemma xorshift_step_0: "xorshift_step 0 = 0"
  by (simp add: xorshift_step_def)

text \<open>
  C8. Zero is an absorbing state: a generator whose state is 0 returns 0 from a
  generation call and keeps the state 0, and any number of successive calls returns
  only zeros and leaves the generator as it was.
\<close>

theorem C8_zero_state_absorbing:
  "seed_member g = 0 \<Longrightarrow>
     operator_call g = (0, g) \<and> generate k g = (replicate k 0, g)
     \<and> seed_member (snd (generate k g)) = 0"
proof -
  assume z: "seed_member g = 0"
  have call: "operator_call g = (0, g)"
    using z by (simp add: operator_call_eq xorshift_step_0)
  have "generate k g = (replicate k 0, g)"
  proof (induction k)
    case 0
    show ?case by simp
  next
    case (Suc k)
    then show ?case using call by simp
  qed
  with call z show ?thesis by simp
qed

theorem C8_zero_state_absorbing_witness:
  "seed_member (xorshift32_from 0) = 0
   \<and> operator_call (xorshift32_from 0) = (0, xorshift32_from 0)
   \<and> generate 5 (xorshift32_from 0) = (replicate 5 0, xorshift32_from 0)
   \<and> seed_member (snd (generate 5 (xorshift32_from 0))) = 0"
proof -
  have h: "seed_member (xorshift32_from 0) = 0"
    by (simp add: xorshift32_from_def)
  show ?thesis
    using h C8_zero_state_absorbing [OF h, of 5] by simp
qed

lemma xor_cancel_left: "(a::u32) XOR (a XOR b) = b"
  by (simp add: xor.assoc [symmetric])

lemma undo_shl13:
  "(x XOR push_bit 13 x) XOR push_bit 13 (x XOR push_bit 13 x)
     XOR push_bit 26 (x XOR push_bit 13 x) = (x::u32)"
  by (simp add: xor.assoc xor_cancel_left)

lemma undo_shr17: "(x XOR drop_bit 17 x) XOR drop_bit 17 (x XOR drop_bit 17 x) = (x::u32)"
  by (simp add: xor.assoc xor_cancel_left)

lemma undo_shl5:
  "(x XOR push_bit 5 x) XOR push_bit 5 (x XOR push_bit 5 x)
     XOR push_bit 10 (x XOR push_bit 5 x) XOR push_bit 15 (x XOR push_bit 5 x)
     XOR push_bit 20 (x XOR push_bit 5 x) XOR push_bit 25 (x XOR push_bit 5 x)
     XOR push_bit 30 (x XOR push_bit 5 x) = (x::u32)"
  by (simp add: xor.assoc xor_cancel_left)

lemma xorshift_unstep_step: "xorshift_unstep (xorshift_step x) = x"
  unfolding xorshift_unstep_def xorshift_step_def Let_def
  by (simp only: undo_shl5 undo_shr17 undo_shl13)

lemma inj_xorshift_step: "inj xorshift_step"
  by (rule inj_on_inverseI [where g = xorshift_unstep]) (rule xorshift_unstep_step)

lemma bij_xorshift_step: "bij xorshift_step"
  by (simp add: bij_def inj_xorshift_step finite_UNIV_inj_surj)

lemma xorshift_step_eq_0_iff: "xorshift_step x = 0 \<longleftrightarrow> x = 0"
  using inj_xorshift_step xorshift_step_0 by (metis injD)

lemma discard_loop_nonzero:
  "seed_member g \<noteq> 0 \<Longrightarrow> seed_member (discard_loop i z g) \<noteq> 0"
proof (induction i z g rule: discard_loop.induct)
  case (1 i z g)
  show ?case
  proof (cases "i < z")
    case True
    have "seed_member (snd (operator_call g)) \<noteq> 0"
      using "1.prems" by (simp add: operator_call_eq xorshift_step_eq_0_iff)
    with "1.IH" [OF True] True show ?thesis
      by (simp add: discard_loop.simps [of i z g])
  next
    case False
    then show ?thesis using "1.prems" by (simp add: discard_loop.simps [of i z g])
  qed
qed

text \<open>
  C10. The transition is a bijection on the 32-bit words and 0 is the only word it
  sends to 0. So a generation call on a nonzero state leaves a nonzero state (and
  returns it), and \<^verbatim>\<open>discard(n)\<close> on a nonzero state leaves a nonzero state, for
  every \<open>n\<close>, the negative ones included, where the loop does not run.
\<close>

theorem C10_nonzero_state_preserved:
  "bij xorshift_step \<and> (\<forall>x. xorshift_step x = 0 \<longleftrightarrow> x = 0)
   \<and> (seed_member g \<noteq> 0 \<longrightarrow>
        fst (operator_call g) \<noteq> 0 \<and> seed_member (snd (operator_call g)) \<noteq> 0
        \<and> seed_member (discard n g) \<noteq> 0)"
proof -
  have "seed_member g \<noteq> 0 \<Longrightarrow> seed_member (discard n g) \<noteq> 0"
    unfolding discard_def by (rule discard_loop_nonzero)
  moreover have "seed_member g \<noteq> 0 \<Longrightarrow> xorshift_step (seed_member g) \<noteq> 0"
    by (simp add: xorshift_step_eq_0_iff)
  ultimately show ?thesis
    by (simp add: bij_xorshift_step xorshift_step_eq_0_iff operator_call_eq)
qed

theorem C10_nonzero_state_preserved_witness:
  "seed_member (xorshift32_from 12) \<noteq> 0
   \<and> fst (operator_call (xorshift32_from 12)) \<noteq> 0
   \<and> seed_member (snd (operator_call (xorshift32_from 12))) \<noteq> 0
   \<and> seed_member (discard 3 (xorshift32_from 12)) \<noteq> 0"
proof -
  have h: "seed_member (xorshift32_from 12) \<noteq> 0"
    by (simp add: xorshift32_from_def)
  show ?thesis
    using h C10_nonzero_state_preserved [of "xorshift32_from 12" 3] by blast
qed

lemma snd_generate_Suc:
  "snd (generate (Suc k) g) = snd (generate k (snd (operator_call g)))"
  by (simp add: split_def Let_def)

lemma fst_generate_Suc:
  "fst (generate (Suc k) g) = fst (operator_call g) # fst (generate k (snd (operator_call g)))"
  by (simp add: split_def Let_def)

lemma discard_loop_generate:
  "i \<le> z \<Longrightarrow> discard_loop i z g = snd (generate (nat (z - i)) g)"
proof (induction i z g rule: discard_loop.induct)
  case (1 i z g)
  show ?case
  proof (cases "i < z")
    case True
    then have n: "nat (z - i) = Suc (nat (z - (i + 1)))" by simp
    have "discard_loop i z g = discard_loop (i + 1) z (snd (operator_call g))"
      using True by (simp add: discard_loop.simps [of i z g])
    also have "\<dots> = snd (generate (nat (z - (i + 1))) (snd (operator_call g)))"
      using True by (intro "1.IH" [OF True]) simp
    also have "\<dots> = snd (generate (nat (z - i)) g)"
      by (simp only: n snd_generate_Suc)
    finally show ?thesis .
  next
    case False
    with "1.prems" have "i = z" by simp
    then show ?thesis by (simp add: discard_loop.simps [of z z g])
  qed
qed

lemma discard_generate: "0 \<le> n \<Longrightarrow> discard n g = snd (generate (nat n) g)"
  using discard_loop_generate [of 0 n g] by (simp add: discard_def)

lemma generate_snoc:
  "generate (Suc k) g =
     (fst (generate k g) @ [fst (operator_call (snd (generate k g)))],
      snd (operator_call (snd (generate k g))))"
proof (induction k arbitrary: g)
  case 0
  show ?case by (simp add: split_def Let_def)
next
  case (Suc k)
  have "generate (Suc (Suc k)) g =
          (fst (operator_call g) # fst (generate (Suc k) (snd (operator_call g))),
           snd (generate (Suc k) (snd (operator_call g))))"
    by (simp only: fst_generate_Suc [symmetric] snd_generate_Suc [symmetric] prod.collapse)
  also have "\<dots> =
          (fst (operator_call g) # (fst (generate k (snd (operator_call g)))
             @ [fst (operator_call (snd (generate k (snd (operator_call g)))))]),
           snd (operator_call (snd (generate k (snd (operator_call g))))))"
    by (simp only: Suc.IH [of "snd (operator_call g)"] fst_conv snd_conv)
  also have "\<dots> =
          (fst (generate (Suc k) g) @ [fst (operator_call (snd (generate (Suc k) g)))],
           snd (operator_call (snd (generate (Suc k) g))))"
    by (simp only: fst_generate_Suc snd_generate_Suc append_Cons)
  finally show ?case .
qed

lemma generate_outputs:
  "fst (generate k g) = map (\<lambda>i. (xorshift_step ^^ Suc i) (seed_member g)) [0..<k]"
proof (induction k arbitrary: g)
  case 0
  show ?case by simp
next
  case (Suc k)
  have s: "seed_member (snd (operator_call g)) = xorshift_step (seed_member g)"
    by (simp add: operator_call_eq)
  have "fst (generate (Suc k) g)
          = xorshift_step (seed_member g)
            # map (\<lambda>i. (xorshift_step ^^ Suc i) (xorshift_step (seed_member g))) [0..<k]"
    by (simp only: fst_generate_Suc Suc.IH s) (simp add: operator_call_eq)
  also have "\<dots> = map (\<lambda>i. (xorshift_step ^^ Suc i) (seed_member g)) [0..<Suc k]"
    by (simp only: map_upt_Suc [of _ k]) (simp add: funpow_swap1)
  finally show ?case .
qed

lemma generate_same_state:
  "operator_eq g1 g2 \<Longrightarrow> fst (generate k g1) = fst (generate k g2)"
proof (induction k arbitrary: g1 g2)
  case 0
  show ?case by simp
next
  case (Suc k)
  have c: "fst (operator_call g1) = fst (operator_call g2)"
    using Suc.prems by (simp add: operator_eq_def operator_call_eq)
  have "operator_eq (snd (operator_call g1)) (snd (operator_call g2))"
    using Suc.prems by (simp add: operator_eq_def operator_call_eq)
  then have "fst (generate k (snd (operator_call g1))) = fst (generate k (snd (operator_call g2)))"
    by (rule Suc.IH)
  with c show ?case by (simp only: fst_generate_Suc)
qed

text \<open>
  C4. Two generators constructed with the same seed \<open>s\<close> produce the same outputs over
  any number \<open>k\<close> of generation calls: the \<open>i\<close>-th output is the transition applied
  \<open>i + 1\<close> times to the seed. For \<open>n \<ge> 0\<close>, \<^verbatim>\<open>discard(n)\<close> leaves the
  generator that \<open>n\<close> generation calls leave, and one generation call after
  \<^verbatim>\<open>discard(n)\<close> returns the last of the values that \<open>n + 1\<close> successive generation
  calls return. Nothing here needs the seed to be nonzero; the statement holds for every
  seed.
\<close>

theorem C4_same_seed_same_sequence_and_discard:
  "0 \<le> n \<Longrightarrow>
     fst (generate k (xorshift32_from s)) = fst (generate k (seed1 s g0))
     \<and> fst (generate k (xorshift32_from s)) = map (\<lambda>i. (xorshift_step ^^ Suc i) s) [0..<k]
     \<and> discard n (xorshift32_from s) = snd (generate (nat n) (xorshift32_from s))
     \<and> fst (operator_call (discard n (xorshift32_from s)))
         = last (fst (generate (nat n + 1) (xorshift32_from s)))"
proof -
  assume n: "0 \<le> n"
  have "operator_eq (xorshift32_from s) (seed1 s g0)"
    by (simp add: operator_eq_def seed1_def)
  then have a: "fst (generate k (xorshift32_from s)) = fst (generate k (seed1 s g0))"
    by (rule generate_same_state)
  have b: "discard n (xorshift32_from s) = snd (generate (nat n) (xorshift32_from s))"
    using n by (rule discard_generate)
  have c: "fst (generate k (xorshift32_from s)) = map (\<lambda>i. (xorshift_step ^^ Suc i) s) [0..<k]"
    using generate_outputs [of k "xorshift32_from s"] by (simp add: xorshift32_from_def)
  have "last (fst (generate (nat n + 1) (xorshift32_from s)))
          = fst (operator_call (snd (generate (nat n) (xorshift32_from s))))"
    using generate_snoc [of "nat n" "xorshift32_from s"] by simp
  with a b c show ?thesis by simp
qed

theorem C4_same_seed_same_sequence_and_discard_witness:
  "(0::int) \<le> 2
   \<and> fst (generate 4 (xorshift32_from 12)) = fst (generate 4 (seed1 12 xorshift32_default))
   \<and> fst (generate 4 (xorshift32_from 12)) = map (\<lambda>i. (xorshift_step ^^ Suc i) 12) [0..<4]
   \<and> discard 2 (xorshift32_from 12) = snd (generate (nat 2) (xorshift32_from 12))
   \<and> fst (operator_call (discard 2 (xorshift32_from 12)))
       = last (fst (generate (nat 2 + 1) (xorshift32_from 12)))"
proof -
  have h: "(0::int) \<le> 2" by simp
  show ?thesis
    using h C4_same_seed_same_sequence_and_discard [OF h, of 4 12 xorshift32_default]
    by blast
qed

section \<open>Properties of the formatter\<close>

lemma print_text:
  "print sep end sh vs out = out @ concat (map (\<lambda>v. write_scalar sh v @ [sep]) vs) @ [end]"
  by (induction vs arbitrary: out) simp_all

text \<open>
  C3, as the specification states it, at \<^verbatim>\<open>print(1, 2, 3)\<close> with a blank for \<^verbatim>\<open>sep\<close> and
  a newline for \<^verbatim>\<open>end\<close>: the text written is not \<^verbatim>\<open>1<sep>2<sep>3<end>\<close>. The last value
  is followed by \<^verbatim>\<open>sep\<close> too, and \<^verbatim>\<open>end\<close> comes after that.
\<close>

theorem C3_print_last_value_counterexample:
  "print (CHR '' '') (CHR 0x0A) show_dec [Val 1, Val 2, Val 3] []
     \<noteq> ''1'' @ [CHR '' ''] @ ''2'' @ [CHR '' ''] @ ''3'' @ [CHR 0x0A]
   \<and> print (CHR '' '') (CHR 0x0A) show_dec [Val 1, Val 2, Val 3] []
     = ''1'' @ [CHR '' ''] @ ''2'' @ [CHR '' ''] @ ''3'' @ [CHR '' ''] @ [CHR 0x0A]"
  by (simp add: show_dec.simps digit_char_def)

text \<open>
  C3, amended. For every call \<^verbatim>\<open>print(sep, end, v1, ..., vn)\<close> with stream-writable
  arguments, every value, the last one included, is written followed by \<^verbatim>\<open>sep\<close>, and
  \<^verbatim>\<open>end\<close> is written once after the separator of the last value; \<^verbatim>\<open>print(a, b, c)\<close>
  writes \<^verbatim>\<open>a<sep>b<sep>c<sep><end>\<close>.
\<close>

theorem C3_print_every_value_then_sep:
  "print sep end sh vs out = out @ concat (map (\<lambda>v. write_scalar sh v @ [sep]) vs) @ [end]
   \<and> print sep end sh [Val a, Val b, Val c] []
       = sh a @ [sep] @ sh b @ [sep] @ sh c @ [sep] @ [end]"
  by (simp add: print_text)

lemma deref_in_range:
  "0 \<le> it \<Longrightarrow> it < int (length output) \<Longrightarrow> deref output it = Some (output ! nat it)"
  by (simp add: deref_def)

lemma deref_last: "output \<noteq> [] \<Longrightarrow> deref output (int (length output) - 1) = Some (last output)"
proof -
  assume ne: "output \<noteq> []"
  then have "nat (int (length output) - 1) = length output - 1" by simp
  with ne show ?thesis by (simp add: deref_def last_conv_nth)
qed

lemma print_pair_text:
  "(if elem \<noteq> last_elem
    then print sep (CHR '' '') sh [Val elem, Chr (CHR '','')] out
    else print sep end sh [Val elem, Chr (CHR ''}'')] out)
   = out @ elem_text sep end sh last_elem elem"
  by (simp add: elem_text_def)

lemma print_elems_text:
  "0 \<le> it \<Longrightarrow> it \<le> int (length output) \<Longrightarrow>
     print_elems sep end sh output last_elem it out
       = Some (out @ concat (map (elem_text sep end sh last_elem) (drop (nat it) output)))"
proof (induction sep "end" sh "output" last_elem it out rule: print_elems.induct)
  case (1 sep e sh c last_elem it out)
  show ?case
  proof (cases "it = int (length c)")
    case True
    then show ?thesis
      by (subst print_elems.simps) simp
  next
    case False
    with "1.prems" have lt: "it < int (length c)" by simp
    have d: "deref c it = Some (c ! nat it)"
      using "1.prems"(1) lt by (rule deref_in_range)
    have n: "nat (it + 1) = Suc (nat it)" using "1.prems"(1) by simp
    have lt': "nat it < length c" using "1.prems"(1) lt by simp
    have dr: "drop (nat it) c = c ! nat it # drop (Suc (nat it)) c"
      using lt' by (simp add: Cons_nth_drop_Suc)
    have "print_elems sep e sh c last_elem it out
            = print_elems sep e sh c last_elem (it + 1)
                (out @ elem_text sep e sh last_elem (c ! nat it))"
      using False d
      by (simp add: print_elems.simps [of sep e sh c last_elem it out]
          print_pair_text del: print.simps)
    also have "\<dots> = Some ((out @ elem_text sep e sh last_elem (c ! nat it))
          @ concat (map (elem_text sep e sh last_elem) (drop (nat (it + 1)) c)))"
      using "1.IH" [OF False d] "1.prems"(1) lt
      by (simp add: print_pair_text del: print.simps)
    also have "\<dots> = Some (out @ concat (map (elem_text sep e sh last_elem)
          (drop (nat it) c)))"
      by (simp add: n dr)
    finally show ?thesis .
  qed
qed

lemma print_container_text:
  "output \<noteq> [] \<Longrightarrow>
     print_container sep end sh output out
       = Some (out @ [CHR ''{'', sep, CHR '' '']
               @ concat (map (elem_text sep end sh (last output)) output))"
  by (simp add: print_container_def deref_last print_elems_text)

lemma print_container_empty: "print_container sep end sh [] out = None"
  by (simp add: print_container_def deref_def)

text \<open>
  C9. On a non-empty container every element access of the container overload is in
  range: the one-before-end access yields the last element, the dereference at every
  position the loop visits yields the element there, and the routine returns a text
  (the undefined branch is not reached). Non-emptiness is needed: on the empty
  container the one-before-end access has no value and the routine has no defined
  result.
\<close>

theorem C9_container_accesses_in_range:
  "(output \<noteq> [] \<longrightarrow>
      deref output (int (length output) - 1) = Some (last output)
      \<and> (\<forall>i < length output. deref output (int i) = Some (output ! i))
      \<and> (\<exists>text. print_container sep end sh output out = Some text))
   \<and> deref ([] :: 'a list) (int (length ([] :: 'a list)) - 1) = None
   \<and> print_container sep end sh ([] :: 'a list) out = None"
  by (simp add: deref_last print_container_text print_container_empty)
     (simp add: deref_def)

theorem C9_container_accesses_in_range_witness:
  "[1, 2, 3::nat] \<noteq> []
   \<and> deref [1, 2, 3::nat] (int (length [1, 2, 3::nat]) - 1) = Some (last [1, 2, 3])
   \<and> deref [1, 2, 3::nat] (int 0) = Some ([1, 2, 3] ! 0)
   \<and> deref [1, 2, 3::nat] (int 1) = Some ([1, 2, 3] ! 1)
   \<and> deref [1, 2, 3::nat] (int 2) = Some ([1, 2, 3] ! 2)
   \<and> (\<exists>text. print_container (CHR '' '') (CHR 0x0A) show_dec [1, 2, 3] [] = Some text)"
proof -
  have h: "[1, 2, 3::nat] \<noteq> []" by simp
  have l: "0 < length [1, 2, 3::nat]" "1 < length [1, 2, 3::nat]" "2 < length [1, 2, 3::nat]"
    by simp_all
  show ?thesis
    using h l C9_container_accesses_in_range
      [of "[1, 2, 3::nat]" "CHR '' ''" "CHR 0x0A" show_dec "[]"]
    by blast
qed




section \<open>Properties of the timer\<close>

lemma cdiv_nonneg: "0 \<le> a \<Longrightarrow> 0 < b \<Longrightarrow> cdiv a b = a div b"
  by (cases "a = 0") (simp_all add: cdiv_def)

text \<open>
  The unit selection with the thresholds as integer comparisons. From the second branch
  on the count is at least 1000, where truncating division is \<open>div\<close>.
\<close>

lemma human_readable_time_branches:
  "human_readable_time d =
     (if d < 1000 then
        \<lparr>unit = '' ns'', unit_fine = [], diff = d, diff_fine = d, diff_ns = d\<rparr>
      else if d < 1000000 then
        \<lparr>unit = '' '' @ micro_sign @ ''s'', unit_fine = [],
         diff = d div 1000, diff_fine = d, diff_ns = d\<rparr>
      else if d < 1000000000 then
        \<lparr>unit = '' ms'', unit_fine = '' '' @ micro_sign @ ''s'',
         diff = d div 1000000, diff_fine = d div 1000, diff_ns = d\<rparr>
      else if d < 60000000000 then
        \<lparr>unit = '' s'', unit_fine = '' ms'',
         diff = d div 1000000000, diff_fine = d div 1000000, diff_ns = d\<rparr>
      else if d < 3600000000000 then
        \<lparr>unit = '' m'', unit_fine = '' s'',
         diff = d div 60000000000, diff_fine = d div 1000000000, diff_ns = d\<rparr>
      else
        \<lparr>unit = '' h'', unit_fine = '' m'',
         diff = d div 3600000000000, diff_fine = d div 60000000, diff_ns = d\<rparr>)"
proof (cases "d < 1000")
  case True
  then show ?thesis by (simp add: human_readable_time_def)
next
  case False
  then have "0 \<le> d" by simp
  then have "\<And>b. 0 < b \<Longrightarrow> cdiv d b = d div b" by (rule cdiv_nonneg)
  then show ?thesis by (simp add: human_readable_time_def Let_def)
qed

lemma human_readable_time_examples:
  "human_readable_time 500
     = \<lparr>unit = '' ns'', unit_fine = [], diff = 500, diff_fine = 500, diff_ns = 500\<rparr>"
  "human_readable_time 1500
     = \<lparr>unit = '' '' @ micro_sign @ ''s'', unit_fine = [], diff = 1, diff_fine = 1500,
        diff_ns = 1500\<rparr>"
  "human_readable_time 2500000
     = \<lparr>unit = '' ms'', unit_fine = '' '' @ micro_sign @ ''s'', diff = 2, diff_fine = 2500,
        diff_ns = 2500000\<rparr>"
  "human_readable_time 1500000000
     = \<lparr>unit = '' s'', unit_fine = '' ms'', diff = 1, diff_fine = 1500,
        diff_ns = 1500000000\<rparr>"
  "human_readable_time 90000000000
     = \<lparr>unit = '' m'', unit_fine = '' s'', diff = 1, diff_fine = 90,
        diff_ns = 90000000000\<rparr>"
  by (simp_all add: human_readable_time_branches)

text \<open>
  C2, at the input 5,000,000,000,000 ns. The unit selected is \<^verbatim>\<open>" h"\<close> with the fine
  unit \<^verbatim>\<open>" m"\<close> and the coarse magnitude is 1, as documented; the fine magnitude is
  83333, the count divided by 60,000,000, where the count divided by 60e9, the number of
  whole minutes, is 83.
\<close>

theorem C2_hour_branch_fine_magnitude:
  "unit (human_readable_time 5000000000000) = '' h''
   \<and> unit_fine (human_readable_time 5000000000000) = '' m''
   \<and> diff (human_readable_time 5000000000000) = 1
   \<and> diff_fine (human_readable_time 5000000000000) = 83333
   \<and> diff_fine (human_readable_time 5000000000000) = cdiv 5000000000000 60000000
   \<and> cdiv 5000000000000 60000000000 = 83
   \<and> diff_fine (human_readable_time 5000000000000) \<noteq> cdiv 5000000000000 60000000000"
  by (simp add: human_readable_time_branches cdiv_def)

lemma stop_eq:
  "stop now ctime (t, out) =
     (human_readable_time (now - Start t), t\<lparr>Now := now, stopped := True\<rparr>,
      out @ [report_text ctime (human_readable_time (now - Start t))])"
  by (simp add: stop_def Let_def)

lemma run_calls_reports:
  "length (snd (run_calls cs (t, out))) = length out + length (filter is_Stop cs)
   \<and> stopped (fst (run_calls cs (t, out))) = (stopped t \<or> filter is_Stop cs \<noteq> [])"
proof (induction cs arbitrary: t out)
  case Nil
  show ?case by simp
next
  case (Cons c cs)
  show ?case
  proof (cases c)
    case (Restart now)
    then show ?thesis using Cons.IH [of "restart now t" out] by (simp add: restart_def)
  next
    case (Stop now ctime)
    then show ?thesis
      using Cons.IH [of "t\<lparr>Now := now, stopped := True\<rparr>"
          "out @ [report_text ctime (human_readable_time (now - Start t))]"]
      by (simp add: stop_eq)
  qed
qed

lemma lifetime_reports:
  "length (lifetime t0 cs t_end ctime_end) = max 1 (length (filter is_Stop cs))"
proof -
  obtain t out where r: "run_calls cs (Timer_new t0, []) = (t, out)"
    by (cases "run_calls cs (Timer_new t0, [])")
  have l: "length out = length (filter is_Stop cs)"
    using run_calls_reports [of cs "Timer_new t0" "[]"] r by simp
  have s: "stopped t = (filter is_Stop cs \<noteq> [])"
    using run_calls_reports [of cs "Timer_new t0" "[]"] r by (simp add: Timer_new_def)
  show ?thesis
  proof (cases "filter is_Stop cs = []")
    case True
    then show ?thesis using l s by (simp add: lifetime_def r destroy_def stop_eq)
  next
    case False
    then have "max 1 (length (filter is_Stop cs)) = length (filter is_Stop cs)"
      by (cases "filter is_Stop cs") simp_all
    then show ?thesis using False l s by (simp add: lifetime_def r destroy_def)
  qed
qed

text \<open>
  C6, as the specification states it, at a lifetime in which the client calls
  \<^verbatim>\<open>stop()\<close> twice and never \<^verbatim>\<open>restart()\<close>: two reports are written, not at most one.
\<close>

theorem C6_two_stops_counterexample:
  "\<not> length (lifetime 0 [Stop 5 ''a'', Stop 7 ''b''] 10 ''c'') \<le> 1
   \<and> length (lifetime 0 [Stop 5 ''a'', Stop 7 ''b''] 10 ''c'') = 2"
  by (simp add: lifetime_reports)

lemma destroy_eq:
  "destroy now ctime (t, out) =
     (if stopped t then out
      else out @ [report_text ctime (human_readable_time (now - Start t))])"
  by (simp add: destroy_def stop_eq)

lemma run_calls_append: "run_calls (pre @ post) s = run_calls post (run_calls pre s)"
proof (induction pre arbitrary: s)
  case Nil
  show ?case by simp
next
  case (Cons c pre)
  show ?case by (cases c) (simp_all add: Cons.IH)
qed

lemma lifetime_eq:
  "lifetime t0 cs t_end ctime_end =
     snd (run_calls cs (Timer_new t0, []))
     @ (if filter is_Stop cs = []
        then [report_text ctime_end
                (human_readable_time (t_end - Start (fst (run_calls cs (Timer_new t0, [])))))]
        else [])"
proof -
  obtain t out where r: "run_calls cs (Timer_new t0, []) = (t, out)"
    by (cases "run_calls cs (Timer_new t0, [])")
  have s: "stopped t = (filter is_Stop cs \<noteq> [])"
    using run_calls_reports [of cs "Timer_new t0" "[]"] r by (simp add: Timer_new_def)
  show ?thesis by (simp add: lifetime_def r destroy_eq s)
qed

text \<open>
  C6, amended. In every Timer lifetime each explicit \<^verbatim>\<open>stop()\<close> call writes one report,
  and the destructor writes one report exactly when \<^verbatim>\<open>stop()\<close> was never called. A
  lifetime without a \<^verbatim>\<open>stop()\<close> call writes exactly one report, a lifetime with one
  \<^verbatim>\<open>stop()\<close> call writes exactly one report in total, and a lifetime with \<open>k \<ge> 1\<close> calls
  writes \<open>k\<close>. Calls of \<^verbatim>\<open>restart()\<close>, before or after, do not change the number.

  In the order of the conjuncts: \<^verbatim>\<open>stop()\<close>, in whatever state the timer is, appends
  exactly one report to what was written, the one for the time since the start reading,
  and sets the flag; \<^verbatim>\<open>restart()\<close> moves the start reading and leaves the flag alone; the
  destructor appends one report when the flag is clear and nothing when it is set; a
  \<^verbatim>\<open>stop()\<close> call anywhere in a sequence of calls appends its one report to what the
  calls before it wrote, and a \<^verbatim>\<open>restart()\<close> call writes nothing; after the calls of a
  lifetime the flag is set exactly when one of them was \<^verbatim>\<open>stop()\<close>, and they have
  written as many reports as there were \<^verbatim>\<open>stop()\<close> calls; the reports of a lifetime are
  those of its calls, followed by the destructor's report exactly when no call was
  \<^verbatim>\<open>stop()\<close>; hence the counts.
\<close>

theorem C6_reports_per_lifetime:
  "snd (snd (stop now ctime (t, out)))
     = out @ [report_text ctime (human_readable_time (now - Start t))]
   \<and> stopped (fst (snd (stop now ctime (t, out))))
   \<and> stopped (restart now t) = stopped t
   \<and> destroy now ctime (t, out)
       = (if stopped t then out
          else out @ [report_text ctime (human_readable_time (now - Start t))])
   \<and> snd (run_calls (pre @ [Stop now ctime]) (t, out))
       = snd (run_calls pre (t, out))
         @ [report_text ctime
              (human_readable_time (now - Start (fst (run_calls pre (t, out)))))]
   \<and> snd (run_calls (pre @ [Restart now]) (t, out)) = snd (run_calls pre (t, out))
   \<and> stopped (fst (run_calls cs (Timer_new t0, []))) = (filter is_Stop cs \<noteq> [])
   \<and> length (snd (run_calls cs (Timer_new t0, []))) = length (filter is_Stop cs)
   \<and> lifetime t0 cs t_end ctime_end
       = snd (run_calls cs (Timer_new t0, []))
         @ (if filter is_Stop cs = []
            then [report_text ctime_end
                    (human_readable_time
                       (t_end - Start (fst (run_calls cs (Timer_new t0, [])))))]
            else [])
   \<and> length (lifetime t0 cs t_end ctime_end) = max 1 (length (filter is_Stop cs))
   \<and> length (lifetime t0 [] t_end ctime_end) = 1
   \<and> length (lifetime t0 [Stop now ctime] t_end ctime_end) = 1
   \<and> length (lifetime t0 (Restart r1 # Stop now ctime # [Restart r2]) t_end ctime_end) = 1"
proof -
  obtain t1 out1 where p: "run_calls pre (t, out) = (t1, out1)"
    by (cases "run_calls pre (t, out)")
  have c1: "snd (snd (stop now ctime (t, out)))
     = out @ [report_text ctime (human_readable_time (now - Start t))]"
    by (simp add: stop_eq)
  have c2: "stopped (fst (snd (stop now ctime (t, out))))"
    by (simp add: stop_eq)
  have c3: "stopped (restart now t) = stopped t"
    by (simp add: restart_def)
  have c4: "destroy now ctime (t, out)
       = (if stopped t then out
          else out @ [report_text ctime (human_readable_time (now - Start t))])"
    by (rule destroy_eq)
  have c5: "snd (run_calls (pre @ [Stop now ctime]) (t, out))
       = snd (run_calls pre (t, out))
         @ [report_text ctime
              (human_readable_time (now - Start (fst (run_calls pre (t, out)))))]"
    by (simp add: run_calls_append p stop_eq)
  have c6: "snd (run_calls (pre @ [Restart now]) (t, out)) = snd (run_calls pre (t, out))"
    by (simp add: run_calls_append p)
  have c7: "stopped (fst (run_calls cs (Timer_new t0, []))) = (filter is_Stop cs \<noteq> [])"
    using run_calls_reports [of cs "Timer_new t0" "[]"] by (simp add: Timer_new_def)
  have c8: "length (snd (run_calls cs (Timer_new t0, []))) = length (filter is_Stop cs)"
    using run_calls_reports [of cs "Timer_new t0" "[]"] by simp
  note c9 = lifetime_eq [of t0 cs t_end ctime_end]
  have c10: "length (lifetime t0 cs t_end ctime_end) = max 1 (length (filter is_Stop cs))"
    by (rule lifetime_reports)
  have c11: "length (lifetime t0 [] t_end ctime_end) = 1"
    by (simp add: lifetime_reports)
  have c12: "length (lifetime t0 [Stop now ctime] t_end ctime_end) = 1"
    by (simp add: lifetime_reports)
  have c13: "length (lifetime t0 (Restart r1 # Stop now ctime # [Restart r2]) t_end ctime_end) = 1"
    by (simp add: lifetime_reports)
  from c1 c2 c3 c4 c5 c6 c7 c8 c9 c10 c11 c12 c13 show ?thesis
    by (intro conjI)
qed

section \<open>Round trip through the text form\<close>

lemma digit_char_code: "d < 10 \<Longrightarrow> of_char (digit_char d) = 48 + d"
proof -
  assume "d < 10"
  then have "d \<in> {0, 1, 2, 3, 4, 5, 6, 7, 8, 9}" by auto
  then show ?thesis by (auto simp: digit_char_def)
qed

lemma is_digit_digit_char: "d < 10 \<Longrightarrow> is_digit (digit_char d)"
  by (simp add: is_digit_def digit_char_code)

lemma digit_val_digit_char: "d < 10 \<Longrightarrow> digit_val (digit_char d) = d"
  by (simp add: digit_val_def digit_char_code)

lemma is_digit_not_space: "is_digit c \<Longrightarrow> \<not> is_space c"
  by (auto simp: is_digit_def is_space_def)

lemma is_digit_not_sign: "is_digit c \<Longrightarrow> c \<noteq> CHR ''+'' \<and> c \<noteq> CHR ''-''"
  by (auto simp: is_digit_def)

lemma show_dec_head: "\<exists>c cs. show_dec n = c # cs \<and> is_digit c"
proof (induction n rule: show_dec.induct)
  case (1 n)
  show ?case
  proof (cases "n < 10")
    case True
    then show ?thesis by (simp add: show_dec.simps [of n] is_digit_digit_char)
  next
    case False
    with "1.IH" obtain c cs where "show_dec (n div 10) = c # cs" "is_digit c" by auto
    then show ?thesis using False by (simp add: show_dec.simps [of n])
  qed
qed

lemma read_digits_show_dec:
  "read_digits acc (show_dec n @ rest)
     = read_digits (acc * 10 ^ length (show_dec n) + n) rest"
proof (induction n arbitrary: acc rest rule: show_dec.induct)
  case (1 n)
  show ?case
  proof (cases "n < 10")
    case True
    then show ?thesis
      by (simp add: show_dec.simps [of n] is_digit_digit_char digit_val_digit_char)
  next
    case False
    have m: "n mod 10 < 10" by simp
    have "read_digits acc (show_dec n @ rest)
            = read_digits acc (show_dec (n div 10) @ digit_char (n mod 10) # rest)"
      using False by (simp add: show_dec.simps [of n])
    also have "\<dots> = read_digits (acc * 10 ^ length (show_dec (n div 10)) + n div 10)
                        (digit_char (n mod 10) # rest)"
      using False by (intro "1.IH") simp
    also have "\<dots> = read_digits ((acc * 10 ^ length (show_dec (n div 10)) + n div 10) * 10
                          + n mod 10) rest"
      using m by (simp add: is_digit_digit_char digit_val_digit_char)
    also have "(acc * 10 ^ length (show_dec (n div 10)) + n div 10) * 10 + n mod 10
                 = acc * 10 ^ length (show_dec n) + n"
      using False by (simp add: show_dec.simps [of n] algebra_simps)
    finally show ?thesis .
  qed
qed

lemma read_digits_stop: "rest = [] \<or> \<not> is_digit (hd rest) \<Longrightarrow> read_digits acc rest = (acc, rest)"
  by (cases rest) auto

lemma operator_in_out:
  assumes "rest = [] \<or> \<not> is_digit (hd rest)"
  shows "operator_in \<lparr>buf = operator_out [] g @ rest, failbit = False\<rparr> fresh
           = Some (\<lparr>buf = rest, failbit = False\<rparr>, fresh\<lparr>seed_member := seed_member g\<rparr>)"
proof -
  obtain c cs where h: "show_dec (unat (seed_member g)) = c # cs" and d: "is_digit c"
    using show_dec_head by blast
  have dw: "dropWhile is_space (buf \<lparr>buf = operator_out [] g @ rest, failbit = False\<rparr>)
              = c # (cs @ rest)"
    using d by (simp add: operator_out_def h is_digit_not_space)
  have rd: "read_digits 0 (c # (cs @ rest)) = (unat (seed_member g), rest)"
    using read_digits_show_dec [of 0 "unat (seed_member g)" rest] read_digits_stop [OF assms]
    by (simp add: h)
  have le: "unat (seed_member g) \<le> 4294967295"
    using unsigned_less [of "seed_member g", where 'a = nat] by simp
  show ?thesis
    unfolding operator_in_def dw
    using d le is_digit_not_sign [OF d] by (simp add: rd del: read_digits.simps)
qed

text \<open>
  C5. Writing a generator in any state to a text stream writes the decimal digits of the
  state and nothing else. Reading that text back into a fresh generator (whatever state
  it was constructed with), from a stream that holds the text followed by nothing or by
  something that does not start with a digit, succeeds, consumes exactly the text, and
  leaves a generator that compares equal to the original, is the original, and produces
  the same outputs over any number of generation calls.
\<close>

theorem C5_serialization_round_trip:
  "rest = [] \<or> \<not> is_digit (hd rest) \<Longrightarrow>
     operator_out [] g = show_dec (unat (seed_member g))
     \<and> (\<exists>g'. operator_in \<lparr>buf = operator_out [] g @ rest, failbit = False\<rparr> (xorshift32_from s0)
               = Some (\<lparr>buf = rest, failbit = False\<rparr>, g')
             \<and> operator_eq g' g \<and> \<not> operator_neq g' g \<and> g' = g
             \<and> generate k g' = generate k g)"
proof -
  assume r: "rest = [] \<or> \<not> is_digit (hd rest)"
  have "operator_in \<lparr>buf = operator_out [] g @ rest, failbit = False\<rparr> (xorshift32_from s0)
          = Some (\<lparr>buf = rest, failbit = False\<rparr>, (xorshift32_from s0)\<lparr>seed_member := seed_member g\<rparr>)"
    using r by (rule operator_in_out)
  moreover have "(xorshift32_from s0)\<lparr>seed_member := seed_member g\<rparr> = g"
    by (simp add: xorshift32_from_def)
  ultimately show ?thesis
    by (simp add: operator_eq_def operator_neq_def operator_out_def)
qed

theorem C5_serialization_round_trip_witness:
  "(([] :: string) = [] \<or> \<not> is_digit (hd ([] :: string)))
   \<and> operator_out [] (snd (operator_call xorshift32_default))
       = show_dec (unat (seed_member (snd (operator_call xorshift32_default))))
   \<and> (\<exists>g'. operator_in \<lparr>buf = operator_out [] (snd (operator_call xorshift32_default)) @ [],
                          failbit = False\<rparr> (xorshift32_from 7)
               = Some (\<lparr>buf = [], failbit = False\<rparr>, g')
             \<and> operator_eq g' (snd (operator_call xorshift32_default))
             \<and> \<not> operator_neq g' (snd (operator_call xorshift32_default))
             \<and> g' = snd (operator_call xorshift32_default)
             \<and> generate 3 g' = generate 3 (snd (operator_call xorshift32_default)))"
proof -
  have h: "([] :: string) = [] \<or> \<not> is_digit (hd ([] :: string))" by simp
  show ?thesis
    using h C5_serialization_round_trip
      [OF h, of "snd (operator_call xorshift32_default)" 7 3]
    by blast
qed

end
